theory Spec2Isabelle
  imports Complex_Main "HOL-Library.Word"
begin

section \<open>JavaScript values\<close>

text \<open>
  The values that flow through \<^verbatim>\<open>index.js\<close>: response bodies parsed by the HTTP client,
  decoded token payloads, and the \<^verbatim>\<open>undefined\<close> and \<^verbatim>\<open>null\<close> the code produces itself.
  Numbers are kept exact (a rational); an object is its list of properties.
\<close>

datatype jsval =
    JUndefined
  | JNull
  | JBool bool
  | JNum rat
  | JStr string
  | JArr "jsval list"
  | JObj "(string \<times> jsval) list"

text \<open>Truthiness, as \<^verbatim>\<open>if (v)\<close>, \<^verbatim>\<open>!v\<close>, \<^verbatim>\<open>a && b\<close> and \<^verbatim>\<open>a || b\<close> see it.\<close>

fun truthy :: "jsval \<Rightarrow> bool" where
  "truthy JUndefined = False"
| "truthy JNull = False"
| "truthy (JBool b) = b"
| "truthy (JNum r) = (r \<noteq> 0)"
| "truthy (JStr s) = (s \<noteq> [])"
| "truthy (JArr xs) = True"
| "truthy (JObj ps) = True"

definition js_or :: "jsval \<Rightarrow> jsval \<Rightarrow> jsval" where
  \<comment> \<open>\<^verbatim>\<open>a || b\<close>\<close>
  "js_or a b = (if truthy a then a else b)"

datatype js_exn = TypeError | SyntaxError | Error jsval

text \<open>
  Property read \<^verbatim>\<open>v.k\<close> for the data keys the program reads: it throws on \<^verbatim>\<open>undefined\<close> and
  \<^verbatim>\<open>null\<close>, finds the property of an object, and is \<^verbatim>\<open>undefined\<close> on every other value.
\<close>

fun get_prop :: "jsval \<Rightarrow> string \<Rightarrow> js_exn + jsval" where
  "get_prop JUndefined k = Inl TypeError"
| "get_prop JNull k = Inl TypeError"
| "get_prop (JObj ps) k = Inr (case map_of ps k of None \<Rightarrow> JUndefined | Some v \<Rightarrow> v)"
| "get_prop v k = Inr JUndefined"

definition field :: "jsval \<Rightarrow> string \<Rightarrow> jsval" where
  \<comment> \<open>the same read where the code has already checked that the value is truthy\<close>
  "field v k = (case get_prop v k of Inl e \<Rightarrow> JUndefined | Inr x \<Rightarrow> x)"

section \<open>The request executor\<close>

text \<open>
  What one call of the HTTP client does: it resolves with a response (status and body) or
  rejects with an error that has a message and, when the server answered, a response.
\<close>

record http_response =
  resp_status :: nat
  resp_data :: jsval

record http_error =
  err_message :: string
  err_response :: "http_response option"

datatype attempt = Resolved http_response | Rejected http_error

text \<open>
  \<open>Get\<close> and \<open>Post\<close> stand for a method whose lower-cased name is \<^verbatim>\<open>'get'\<close> or \<^verbatim>\<open>'post'\<close>;
  any other method name is \<open>Unsupported\<close>.
\<close>

datatype http_method = Get | Post | Unsupported string

datatype endpoint = IpLookup | MessageUrl | VerifyUrl | CheckinUrl | PointsUrl jsval

datatype log_level = LInfo | LWarn | LError

text \<open>
  The effects recorded: a network request, a timed wait (in milliseconds), and a line of the
  logger (its level and the fixed part of its message). Plain console output (headers, blank
  lines) within the processing of an identity is not recorded.
\<close>

datatype event = Request endpoint | Sleep rat | Log log_level string

text \<open>The executor's return value: \<^verbatim>\<open>{success: true, response}\<close> or \<^verbatim>\<open>{success: false, message, status}\<close>.\<close>

datatype outcome = Success jsval | Failure jsval "nat option"

definition delay :: "rat \<Rightarrow> event list" where
  \<comment> \<open>\<^verbatim>\<open>delay(seconds)\<close> waits \<^verbatim>\<open>seconds * 1000\<close> milliseconds\<close>
  "delay seconds = [Sleep (seconds * 1000)]"

definition num :: "nat option \<Rightarrow> nat" where
  \<comment> \<open>a status in a numeric comparison: \<^verbatim>\<open>null\<close> counts as 0\<close>
  "num status = (case status of None \<Rightarrow> 0 | Some s \<Rightarrow> s)"

definition error_status :: "http_error \<Rightarrow> nat option" where
  "error_status error = (case err_response error of None \<Rightarrow> None | Some r \<Rightarrow> Some (resp_status r))"

definition error_msg :: "http_error \<Rightarrow> jsval" where
  "error_msg error =
     (let errMsg = JStr (err_message error) in
      case err_response error of
        None \<Rightarrow> errMsg
      | Some r \<Rightarrow>
          if truthy (resp_data r)
          then js_or (field (resp_data r) ''error'') (js_or (field (resp_data r) ''message'') errMsg)
          else errMsg)"

text \<open>
  The body of the \<^verbatim>\<open>try\<close>: the request is issued for \<^verbatim>\<open>get\<close> and \<^verbatim>\<open>post\<close>, any other method
  throws before anything is sent. The result is the thrown error or the value returned,
  with the events of the attempt.
\<close>

definition try_request ::
  "http_method \<Rightarrow> endpoint \<Rightarrow> attempt \<Rightarrow> (http_error + outcome) \<times> event list" where
  "try_request method url answer =
     (case method of
        Unsupported m \<Rightarrow>
          (Inl \<lparr>err_message = ''Method '' @ m @ '' not supported'', err_response = None\<rparr>, [])
      | _ \<Rightarrow>
          (case answer of
             Rejected error \<Rightarrow> (Inl error, [Request url])
           | Resolved response \<Rightarrow>
               (let data = resp_data response in
                if truthy data \<and> field data ''success'' = JBool False
                then (Inr (Failure (js_or (field data ''error'') (JStr ''Unknown error''))
                             (Some (resp_status response))), [Request url])
                else (Inr (Success data), [Request url]))))"

text \<open>
  \<^verbatim>\<open>requestWithRetry\<close>. \<open>net i\<close> is what the HTTP client does at attempt \<open>i\<close> of this call.
  The result is the returned value (\<open>None\<close> is \<^verbatim>\<open>undefined\<close>, when the loop ends without a
  \<^verbatim>\<open>return\<close>) and the events in the order they happen.
\<close>

function requestWithRetry_from ::
  "http_method \<Rightarrow> endpoint \<Rightarrow> (nat \<Rightarrow> attempt) \<Rightarrow> int \<Rightarrow> int \<Rightarrow> rat \<Rightarrow> outcome option \<times> event list" where
  "requestWithRetry_from method url net retries i backoff =
     (if i < retries then
        (case try_request method url (net (nat i)) of
           (Inr result, evs) \<Rightarrow> (Some result, evs)
         | (Inl error, evs) \<Rightarrow>
             (let status = error_status error;
                  errMsg = error_msg error
              in if 400 \<le> num status \<and> num status < 500 \<and> status \<noteq> Some 429
                 then (Some (Failure errMsg status), evs)
                 else
                   (let shouldRetry = (status = Some 429 \<or> (500 \<le> num status \<and> num status < 600));
                        backoff1 = (if status = Some 429 then 30000 else backoff)
                    in if shouldRetry \<and> i < retries - 1
                       then (case requestWithRetry_from method url net retries (i + 1) (backoff1 * (3 / 2)) of
                               (result, rest) \<Rightarrow> (result, evs @ delay (backoff1 / 1000) @ rest))
                       else (Some (Failure errMsg status),
                             evs @ [Log LError ''Request failed after attempts'']))))
      else (None, []))"
  by pat_completeness auto
termination
  by (relation "measure (\<lambda>(method, url, net, retries, i, backoff). nat (retries - i))") auto

definition requestWithRetry ::
  "http_method \<Rightarrow> endpoint \<Rightarrow> (nat \<Rightarrow> attempt) \<Rightarrow> int \<Rightarrow> rat \<Rightarrow> outcome option \<times> event list" where
  "requestWithRetry method url net retries backoff = requestWithRetry_from method url net retries 0 backoff"

text \<open>The waits and the number of requests of a run, read off its events.\<close>

fun sleeps :: "event list \<Rightarrow> rat list" where
  "sleeps [] = []"
| "sleeps (Sleep ms # es) = ms # sleeps es"
| "sleeps (e # es) = sleeps es"

fun requests :: "event list \<Rightarrow> endpoint list" where
  "requests [] = []"
| "requests (Request u # es) = u # requests es"
| "requests (e # es) = requests es"


section \<open>Request configuration\<close>

datatype agent = HttpsProxyAgent string | SocksProxyAgent string

definition startsWith :: "string \<Rightarrow> string \<Rightarrow> bool" where
  "startsWith s p = (take (length p) s = p)"

definition newAgent :: "string \<Rightarrow> agent option \<times> event list" where
  "newAgent proxy =
     (if startsWith proxy ''http://'' \<or> startsWith proxy ''https://'' then (Some (HttpsProxyAgent proxy), [])
      else if startsWith proxy ''socks4://'' \<or> startsWith proxy ''socks5://'' then (Some (SocksProxyAgent proxy), [])
      else (None, [Log LWarn ''Unsupported proxy'']))"

text \<open>
  The configuration handed to the HTTP client, without the fixed headers and the random
  user agent: the bearer token when there is one, the timeout, and the proxy agent.
\<close>

record axios_config =
  cfg_authorization :: "jsval option"
  cfg_timeout :: nat
  cfg_agent :: "agent option"
  cfg_proxy_off :: bool

definition getAxiosConfig :: "string option \<Rightarrow> jsval \<Rightarrow> axios_config \<times> event list" where
  "getAxiosConfig proxy token =
     (let config = \<lparr>cfg_authorization = (if truthy token then Some token else None),
                    cfg_timeout = 60000, cfg_agent = None, cfg_proxy_off = False\<rparr>
      in case proxy of
           None \<Rightarrow> (config, [])
         | Some p \<Rightarrow>
             if p \<noteq> []
             then (case newAgent p of
                     (a, evs) \<Rightarrow> (config\<lparr>cfg_agent := a, cfg_proxy_off := True\<rparr>, evs))
             else (config, []))"

section \<open>The world outside the program\<close>

text \<open>
  The wallet library (address of a private key, signature of a message; \<open>None\<close> where the
  library throws), the runtime's UTF-8 decoding and \<^verbatim>\<open>JSON.parse\<close> of a byte buffer
  (\<open>None\<close> where it throws), and the network: what the HTTP client does at each attempt of
  a request to an endpoint with a payload under a configuration.
\<close>

record world =
  wallet_address :: "string \<Rightarrow> string option"
  sign_message :: "string \<Rightarrow> jsval \<Rightarrow> string option"
  json_parse :: "8 word list \<Rightarrow> jsval option"
  network :: "endpoint \<Rightarrow> jsval \<Rightarrow> axios_config \<Rightarrow> nat \<Rightarrow> attempt"

section \<open>Token decoding\<close>

text \<open>\<^verbatim>\<open>s.split(c)\<close> for a one-character separator.\<close>

fun split :: "char \<Rightarrow> string \<Rightarrow> string list" where
  "split c [] = [[]]"
| "split c (x # xs) =
     (if x = c then [] # split c xs
      else (case split c xs of [] \<Rightarrow> [[x]] | p # ps \<Rightarrow> (x # p) # ps))"

definition replace_all :: "char \<Rightarrow> char \<Rightarrow> string \<Rightarrow> string" where
  \<comment> \<open>\<^verbatim>\<open>s.replace(/a/g, 'b')\<close>\<close>
  "replace_all a b s = map (\<lambda>c. if c = a then b else c) s"

definition repair_base64 :: "string \<Rightarrow> string" where
  "repair_base64 segment =
     (let base64 = replace_all CHR ''_'' CHR ''/'' (replace_all CHR ''-'' CHR ''+'' segment);
          paddingLength = (4 - length base64 mod 4) mod 4
      in base64 @ replicate paddingLength CHR ''='')"

text \<open>
  \<^verbatim>\<open>Buffer.from(s, 'base64')\<close> of the runtime: decoding stops at the first \<^verbatim>\<open>=\<close>, characters
  outside the alphabet are skipped, the URL-safe characters are accepted as well, every four
  characters give three bytes, and two or three left over give one or two bytes.
\<close>

definition base64_alphabet :: string where
  "base64_alphabet = ''ABCDEFGHIJKLMNOPQRSTUVWXYZabcdefghijklmnopqrstuvwxyz0123456789+/''"

fun index_of :: "char \<Rightarrow> string \<Rightarrow> nat option" where
  "index_of c [] = None"
| "index_of c (x # xs) = (if c = x then Some 0 else map_option Suc (index_of c xs))"

definition unbase64 :: "char \<Rightarrow> nat option" where
  "unbase64 c =
     (if c = CHR ''-'' then Some 62 else if c = CHR ''_'' then Some 63
      else index_of c base64_alphabet)"

fun base64_bytes :: "nat list \<Rightarrow> 8 word list" where
  "base64_bytes (a # b # c # d # rest) =
     of_nat (a * 4 + b div 16) # of_nat (b mod 16 * 16 + c div 4) # of_nat (c mod 4 * 64 + d)
       # base64_bytes rest"
| "base64_bytes [a, b, c] = [of_nat (a * 4 + b div 16), of_nat (b mod 16 * 16 + c div 4)]"
| "base64_bytes [a, b] = [of_nat (a * 4 + b div 16)]"
| "base64_bytes _ = []"

definition Buffer_from_base64 :: "string \<Rightarrow> 8 word list" where
  "Buffer_from_base64 s =
     base64_bytes (List.map_filter unbase64 (takeWhile (\<lambda>c. c \<noteq> CHR ''='') s))"

text \<open>The payload segment of a token: repaired, decoded and parsed.\<close>

definition decode_payload :: "(8 word list \<Rightarrow> jsval option) \<Rightarrow> string \<Rightarrow> js_exn + jsval" where
  "decode_payload parse segment =
     (let base64 = repair_base64 segment;
          payload = Buffer_from_base64 base64
      in case parse payload of None \<Rightarrow> Inl SyntaxError | Some jsonPayload \<Rightarrow> Inr jsonPayload)"

definition extractUserIdFromToken_try :: "(8 word list \<Rightarrow> jsval option) \<Rightarrow> jsval \<Rightarrow> js_exn + jsval" where
  "extractUserIdFromToken_try parse accessToken =
     (case accessToken of
        JStr s \<Rightarrow>
          (let parts = split CHR ''.'' s
           in if length parts \<noteq> 3 then Inl (Error (JStr ''Invalid JWT''))
              else (case decode_payload parse (parts ! 1) of
                      Inl e \<Rightarrow> Inl e
                    | Inr jsonPayload \<Rightarrow> get_prop jsonPayload ''userId''))
      | _ \<Rightarrow> Inl TypeError)"

definition extractUserIdFromToken :: "(8 word list \<Rightarrow> jsval option) \<Rightarrow> jsval \<Rightarrow> jsval \<times> event list" where
  "extractUserIdFromToken parse accessToken =
     (case extractUserIdFromToken_try parse accessToken of
        Inr userId \<Rightarrow> (userId, [])
      | Inl error \<Rightarrow> (JNull, [Log LError ''Failed to extract userId from token'']))"

text \<open>
  The program only decodes. The encoder of the round trip is the token issuer's; it is
  written here from the specification's words ("base64url, unpadded"): base64 with the
  URL-safe alphabet and without padding.
\<close>

definition base64url_alphabet :: string where
  "base64url_alphabet = ''ABCDEFGHIJKLMNOPQRSTUVWXYZabcdefghijklmnopqrstuvwxyz0123456789-_''"

definition base64url_char :: "nat \<Rightarrow> char" where
  "base64url_char n = base64url_alphabet ! n"

fun base64url_encode :: "8 word list \<Rightarrow> string" where
  "base64url_encode (x # y # z # rest) =
     base64url_char (unat x div 4) # base64url_char (unat x mod 4 * 16 + unat y div 16)
       # base64url_char (unat y mod 16 * 4 + unat z div 64) # base64url_char (unat z mod 64)
       # base64url_encode rest"
| "base64url_encode [x, y] =
     [base64url_char (unat x div 4), base64url_char (unat x mod 4 * 16 + unat y div 16),
      base64url_char (unat y mod 16 * 4)]"
| "base64url_encode [x] = [base64url_char (unat x div 4), base64url_char (unat x mod 4 * 16)]"
| "base64url_encode [] = []"


section \<open>The per-identity flows\<close>

text \<open>The fields of the executor's return value, as the callers read them.\<close>

fun out_success :: "outcome \<Rightarrow> bool" where
  "out_success (Success response) = True"
| "out_success (Failure message status) = False"

fun out_response :: "outcome \<Rightarrow> jsval" where
  "out_response (Success response) = response"
| "out_response (Failure message status) = JUndefined"

fun out_message :: "outcome \<Rightarrow> jsval" where
  "out_message (Success response) = JUndefined"
| "out_message (Failure message status) = message"

definition getPublicIP :: "world \<Rightarrow> string option \<Rightarrow> jsval \<times> event list" where
  "getPublicIP w proxy =
     (case getAxiosConfig proxy JNull of (config, cevs) \<Rightarrow>
      case requestWithRetry Get IpLookup (network w IpLookup JNull config) 5 5000 of (response, evs) \<Rightarrow>
        (case (case response of
                 None \<Rightarrow> Inl TypeError
               | Some r \<Rightarrow> get_prop (out_response r) ''ip'') of
           Inr ip \<Rightarrow> (js_or ip (JStr ''Unknown''), cevs @ evs)
         | Inl error \<Rightarrow> (JStr ''Error retrieving IP'', cevs @ evs @ [Log LError ''Failed to get IP''])))"

definition getMessageAndNonce :: "world \<Rightarrow> string \<Rightarrow> string option \<Rightarrow> (jsval \<times> jsval) option \<times> event list" where
  "getMessageAndNonce w address proxy =
     (let payload = JObj [(''publicAddress'', JStr address), (''publicKey'', JStr address)]
      in case getAxiosConfig proxy JNull of (config, cevs) \<Rightarrow>
         case requestWithRetry Post MessageUrl (network w MessageUrl payload config) 5 5000 of (res, evs) \<Rightarrow>
           (case (case res of
                    None \<Rightarrow> Inl TypeError
                  | Some r \<Rightarrow>
                      if \<not> out_success r then Inl (Error (out_message r))
                      else (case get_prop (out_response r) ''message'' of
                              Inl e \<Rightarrow> Inl e
                            | Inr message \<Rightarrow>
                                (case get_prop (out_response r) ''nonce'' of
                                   Inl e \<Rightarrow> Inl e
                                 | Inr nonce \<Rightarrow> Inr (message, nonce)))) of
              Inr msgNonce \<Rightarrow> (Some msgNonce, cevs @ evs)
            | Inl error \<Rightarrow> (None, cevs @ evs @ [Log LError ''Failed to fetch message and nonce''])))"

definition performLogin :: "world \<Rightarrow> string \<Rightarrow> string option \<Rightarrow> jsval \<times> event list" where
  "performLogin w pk proxy =
     (case wallet_address w pk of
        None \<Rightarrow> (JNull, [Log LError ''Failed to perform login''])
      | Some address \<Rightarrow>
          (case getMessageAndNonce w address proxy of
             (None, evs1) \<Rightarrow> (JNull, evs1 @ [Log LError ''Failed to perform login''])
           | (Some (message, nonce), evs1) \<Rightarrow>
               (case sign_message w pk message of
                  None \<Rightarrow> (JNull, evs1 @ [Log LError ''Failed to perform login''])
                | Some signature \<Rightarrow>
                    (let payload = JObj [(''publicAddress'', JStr address), (''publicKey'', JStr address),
                                         (''signature'', JStr signature), (''message'', message),
                                         (''nonce'', nonce), (''walletType'', JStr ''evm'')]
                     in case getAxiosConfig proxy JNull of (config, cevs) \<Rightarrow>
                        case requestWithRetry Post VerifyUrl (network w VerifyUrl payload config) 5 5000 of (res, evs2) \<Rightarrow>
                          (case (case res of
                                   None \<Rightarrow> Inl TypeError
                                 | Some r \<Rightarrow>
                                     if \<not> out_success r then Inl (Error (out_message r))
                                     else get_prop (out_response r) ''accessToken'') of
                             Inr accessToken \<Rightarrow> (accessToken, evs1 @ cevs @ evs2)
                           | Inl error \<Rightarrow>
                               (JNull, evs1 @ cevs @ evs2 @ [Log LError ''Failed to perform login'']))))))"

text \<open>
  \<^verbatim>\<open>v.includes(m)\<close>: a substring test on a string, membership in an array, and a
  \<^verbatim>\<open>TypeError\<close> on a value that has no such method.
\<close>

fun includes_str :: "string \<Rightarrow> string \<Rightarrow> bool" where
  "includes_str [] m = (m = [])"
| "includes_str (c # cs) m = (startsWith (c # cs) m \<or> includes_str cs m)"

fun js_includes :: "jsval \<Rightarrow> string \<Rightarrow> js_exn + bool" where
  "js_includes (JStr s) m = Inr (includes_str s m)"
| "js_includes (JArr xs) m = Inr (JStr m \<in> set xs)"
| "js_includes v m = Inl TypeError"

text \<open>
  \<^verbatim>\<open>performCheckIn\<close> after the request: what it returns and logs for each executor result.
  The value is the response body, \<^verbatim>\<open>{alreadyChecked: true}\<close> or \<^verbatim>\<open>null\<close>.
\<close>

definition alreadyChecked :: jsval where
  "alreadyChecked = JObj [(''alreadyChecked'', JBool True)]"

definition checkIn_result :: "outcome option \<Rightarrow> jsval \<times> event list" where
  "checkIn_result res =
     (case res of
        None \<Rightarrow> (JNull, [Log LError ''Unexpected error during check-in''])
      | Some (Success response) \<Rightarrow> (response, [])
      | Some (Failure message status) \<Rightarrow>
          (let errorMsg = js_or message (JStr ''Unknown error'')
           in if status = Some 502 \<or> status = Some 409
              then (alreadyChecked, [Log LWarn ''Already checked in''])
              else (case js_includes errorMsg ''Daily quest already completed today'' of
                      Inl error \<Rightarrow> (JNull, [Log LError ''Unexpected error during check-in''])
                    | Inr True \<Rightarrow> (alreadyChecked, [Log LWarn ''Already checked in''])
                    | Inr False \<Rightarrow> (JNull, [Log LError ''Check-in failed'']))))"

definition performCheckIn :: "world \<Rightarrow> jsval \<Rightarrow> jsval \<Rightarrow> string option \<Rightarrow> jsval \<times> event list" where
  "performCheckIn w userId token proxy =
     (let payload = JObj [(''questName'', JStr ''daily_check''), (''userId'', userId)]
      in case getAxiosConfig proxy token of (config, cevs) \<Rightarrow>
         case requestWithRetry Post CheckinUrl (network w CheckinUrl payload config) 5 5000 of (res, evs) \<Rightarrow>
         case checkIn_result res of (v, levs) \<Rightarrow> (v, cevs @ evs @ levs))"

text \<open>\<^verbatim>\<open>fetchUserPoints\<close> after the request: the value of the \<^verbatim>\<open>try\<close> body, or what it throws.\<close>

definition points_result :: "outcome option \<Rightarrow> js_exn + jsval" where
  "points_result res =
     (case res of
        None \<Rightarrow> Inl TypeError
      | Some r \<Rightarrow>
          if \<not> out_success r then Inl (Error (out_message r))
          else (case get_prop (out_response r) ''totalPoints'' of
                  Inl e \<Rightarrow> Inl e
                | Inr totalPoints \<Rightarrow> Inr (js_or totalPoints (JStr ''N/A''))))"

definition fetchUserPoints :: "world \<Rightarrow> jsval \<Rightarrow> jsval \<Rightarrow> string option \<Rightarrow> jsval \<times> event list" where
  "fetchUserPoints w userId token proxy =
     (case getAxiosConfig proxy token of (config, cevs) \<Rightarrow>
      case requestWithRetry Get (PointsUrl userId) (network w (PointsUrl userId) JNull config) 5 5000 of (res, evs) \<Rightarrow>
        (case points_result res of
           Inr points \<Rightarrow> (points, cevs @ evs)
         | Inl error \<Rightarrow> (JStr ''N/A'', cevs @ evs @ [Log LError ''Failed to fetch user points''])))"

text \<open>
  \<^verbatim>\<open>processPrivateKey\<close>: the events of one identity, or the error it throws (only the wallet
  constructor at its start is outside every \<^verbatim>\<open>try\<close>).
\<close>

definition processPrivateKey :: "world \<Rightarrow> string \<Rightarrow> nat \<Rightarrow> nat \<Rightarrow> string option \<Rightarrow> js_exn + event list" where
  "processPrivateKey w pk index n proxy =
     (case wallet_address w pk of
        None \<Rightarrow> Inl (Error (JStr ''invalid private key''))
      | Some address \<Rightarrow>
          (case getPublicIP w proxy of (ip, evs_ip) \<Rightarrow>
           case performLogin w pk proxy of (token, evs_login) \<Rightarrow>
             (let started = [Log LInfo ''Starting account processing''] @ evs_ip
                    @ [Log LInfo ''IP'', Log LInfo ''Address'', Log LInfo ''Starting login process...'']
                    @ evs_login
              in if \<not> truthy token then Inr (started @ [Log LError ''Login failed''])
                 else
                   (case extractUserIdFromToken (json_parse w) token of (userId, evs_id) \<Rightarrow>
                      if \<not> truthy userId
                      then Inr (started @ [Log LInfo ''Login successful''] @ evs_id
                                  @ [Log LError ''Failed to extract userId''])
                      else
                        (case performCheckIn w userId token proxy of (checkInRes, evs_checkin) \<Rightarrow>
                         case fetchUserPoints w userId token proxy of (totalPoints, evs_points) \<Rightarrow>
                           Inr (started @ [Log LInfo ''Login successful''] @ evs_id
                                  @ [Log LInfo ''Starting daily check-in process...''] @ evs_checkin
                                  @ (if truthy checkInRes \<and> \<not> truthy (field checkInRes ''alreadyChecked'')
                                     then [Log LInfo ''Check-in successful''] else [])
                                  @ evs_points
                                  @ [Log LInfo ''Address'', Log LInfo ''Total Points'',
                                     Log LInfo ''Completed account processing'']))))))"

section \<open>The cycle\<close>

text \<open>The two globals set once at start-up.\<close>

record proxy_config =
  globalUseProxy :: bool
  globalProxies :: "string list"

text \<open>
  What a cycle does, identity by identity: the processing of identity \<open>i\<close> with its events
  (those of the \<^verbatim>\<open>catch\<close> included), the blank lines printed, a call of \<^verbatim>\<open>delay\<close>, and the
  log line of a cycle without keys.
\<close>

datatype cycle_event =
    Account nat "event list"
  | BlankLines
  | Pause "event list"
  | CycleLog log_level string

text \<open>
  \<^verbatim>\<open>runCycle\<close>, on the list \<^verbatim>\<open>readPrivateKeys()\<close> returned (reading the file is not
  modelled). \<open>ws i\<close> is the world while identity \<open>i\<close> is processed. An index into an empty
  proxy list gives \<^verbatim>\<open>undefined\<close>, which is \<open>None\<close>.
\<close>

function runCycle_from :: "(nat \<Rightarrow> world) \<Rightarrow> proxy_config \<Rightarrow> string list \<Rightarrow> nat \<Rightarrow> cycle_event list" where
  "runCycle_from ws cfg pks i =
     (if i < length pks then
        (let proxy = (if globalUseProxy cfg
                      then (if globalProxies cfg = [] then None
                            else Some (globalProxies cfg ! (i mod length (globalProxies cfg))))
                      else None);
             evs = (case processPrivateKey (ws i) (pks ! i) i (length pks) proxy of
                      Inr evs \<Rightarrow> evs
                    | Inl error \<Rightarrow> [Log LError ''Error processing account''])
         in [Account i evs]
              @ (if int i < int (length pks) - 1 then [BlankLines] else [])
              @ [Pause (delay 5)]
              @ runCycle_from ws cfg pks (i + 1))
      else [])"
  by pat_completeness auto
termination
  by (relation "measure (\<lambda>(ws, cfg, pks, i). length pks - i)") auto

definition runCycle :: "(nat \<Rightarrow> world) \<Rightarrow> proxy_config \<Rightarrow> string list \<Rightarrow> cycle_event list" where
  "runCycle ws cfg pks =
     (if length pks = 0 then [CycleLog LError ''No private keys found in pk.txt. Exiting cycle.'']
      else runCycle_from ws cfg pks 0)"

section \<open>Notions used in the statements\<close>

text \<open>The events that follow request number \<open>k\<close> (counted from 0) of a run.\<close>

fun after_request :: "nat \<Rightarrow> event list \<Rightarrow> event list" where
  "after_request k [] = []"
| "after_request 0 (Request u # es) = es"
| "after_request (Suc k) (Request u # es) = after_request k es"
| "after_request k (e # es) = after_request k es"

text \<open>The three tests of the \<^verbatim>\<open>catch\<close> block, named.\<close>

definition retryable :: "nat option \<Rightarrow> bool" where
  "retryable status = (status = Some 429 \<or> (500 \<le> num status \<and> num status < 600))"

definition client_error :: "nat option \<Rightarrow> bool" where
  "client_error status = (400 \<le> num status \<and> num status < 500 \<and> status \<noteq> Some 429)"

definition next_backoff :: "nat option \<Rightarrow> rat \<Rightarrow> rat" where
  "next_backoff status backoff = (if status = Some 429 then 30000 else backoff)"

text \<open>
  Inputs for the examples: a network that gives the listed answers in turn and a fixed
  answer afterwards; an HTTP failure with a status; a failure without a response; a 200.
\<close>

definition replies :: "attempt list \<Rightarrow> attempt \<Rightarrow> nat \<Rightarrow> attempt" where
  "replies as d k = (if k < length as then as ! k else d)"

definition http_failure :: "nat \<Rightarrow> attempt" where
  "http_failure s = Rejected \<lparr>err_message = ''Request failed'', err_response = Some \<lparr>resp_status = s, resp_data = JNull\<rparr>\<rparr>"

definition transport_failure :: "string \<Rightarrow> attempt" where
  "transport_failure m = Rejected \<lparr>err_message = m, err_response = None\<rparr>"

definition ok :: "jsval \<Rightarrow> attempt" where
  "ok d = Resolved \<lparr>resp_status = 200, resp_data = d\<rparr>"

text \<open>
  The six-bit groups of a byte sequence, and what the two replacements of the repair do to
  one character.
\<close>

fun sextets :: "8 word list \<Rightarrow> nat list" where
  "sextets (x # y # z # rest) =
     unat x div 4 # (unat x mod 4 * 16 + unat y div 16) # (unat y mod 16 * 4 + unat z div 64) # unat z mod 64 # sextets rest"
| "sextets [x, y] = [unat x div 4, unat x mod 4 * 16 + unat y div 16, unat y mod 16 * 4]"
| "sextets [x] = [unat x div 4, unat x mod 4 * 16]"
| "sextets [] = []"

definition repair_char :: "char \<Rightarrow> char" where
  "repair_char c =
     (let c1 = (if c = CHR ''-'' then CHR ''+'' else c)
      in if c1 = CHR ''_'' then CHR ''/'' else c1)"

text \<open>The waits of a cycle, in order.\<close>

fun pauses :: "cycle_event list \<Rightarrow> event list list" where
  "pauses [] = []"
| "pauses (Pause d # es) = d # pauses es"
| "pauses (e # es) = pauses es"

text \<open>
  A sample world for the examples: a service that knows the key \<open>k1\<close>, issues a token whose
  payload is \<^verbatim>\<open>{"userId":"u-17"}\<close>, answers the check-in with status 409 and the points
  request with a balance of 0; a JSON codec that knows this one payload.
\<close>

definition utf8 :: "string \<Rightarrow> 8 word list" where
  "utf8 s = map (\<lambda>c. of_nat (of_char c)) s"

definition sample_payload :: jsval where
  "sample_payload = JObj [(''userId'', JStr ''u-17'')]"

definition sample_json :: "8 word list" where
  \<open>sample_json = utf8 ''{"userId":"u-17"}''\<close>

definition sample_parse :: "8 word list \<Rightarrow> jsval option" where
  "sample_parse bs = (if bs = sample_json then Some sample_payload else None)"

definition sample_serialize :: "jsval \<Rightarrow> 8 word list" where
  "sample_serialize v = (if v = sample_payload then sample_json else [])"

definition sample_token :: string where
  "sample_token = ''eyJhbGciOiJIUzI1NiJ9.'' @ base64url_encode sample_json @ ''.c2ln''"

definition sample_network :: "endpoint \<Rightarrow> jsval \<Rightarrow> axios_config \<Rightarrow> nat \<Rightarrow> attempt" where
  "sample_network url payload config k =
     (case url of
        IpLookup \<Rightarrow> ok (JObj [(''ip'', JStr ''203.0.113.7'')])
      | MessageUrl \<Rightarrow> ok (JObj [(''message'', JStr ''Sign in''), (''nonce'', JStr ''n1'')])
      | VerifyUrl \<Rightarrow> ok (JObj [(''accessToken'', JStr sample_token)])
      | CheckinUrl \<Rightarrow>
          Rejected \<lparr>err_message = ''Request failed with status code 409'',
                    err_response = Some \<lparr>resp_status = 409,
                      resp_data = JObj [(''message'', JStr ''Daily quest already completed today'')]\<rparr>\<rparr>
      | PointsUrl userId \<Rightarrow> ok (JObj [(''totalPoints'', JNum 0)]))"

definition sample_world :: world where
  "sample_world =
     \<lparr>wallet_address = (\<lambda>pk. if pk = ''k1'' then Some ''0xA1'' else None),
      sign_message = (\<lambda>pk message. Some ''0xsig''),
      json_parse = sample_parse,
      network = sample_network\<rparr>"

definition everywhere :: "world \<Rightarrow> nat \<Rightarrow> world" where
  "everywhere w i = w"

section \<open>Properties of the request executor\<close>

declare requestWithRetry_from.simps [simp del]

lemma loop_done: "\<not> i < retries \<Longrightarrow> requestWithRetry_from meth url net retries i backoff = (None, [])"
  by (simp add: requestWithRetry_from.simps)

lemma loop_return:
  "i < retries \<Longrightarrow> try_request meth url (net (nat i)) = (Inr result, evs) \<Longrightarrow>
   requestWithRetry_from meth url net retries i backoff = (Some result, evs)"
  by (simp add: requestWithRetry_from.simps)

lemma loop_client:
  "i < retries \<Longrightarrow> try_request meth url (net (nat i)) = (Inl error, evs) \<Longrightarrow>
   client_error (error_status error) \<Longrightarrow>
   requestWithRetry_from meth url net retries i backoff = (Some (Failure (error_msg error) (error_status error)), evs)"
  by (simp add: requestWithRetry_from.simps client_error_def)

lemma loop_final:
  "i < retries \<Longrightarrow> try_request meth url (net (nat i)) = (Inl error, evs) \<Longrightarrow>
   \<not> client_error (error_status error) \<Longrightarrow> \<not> (retryable (error_status error) \<and> i < retries - 1) \<Longrightarrow>
   requestWithRetry_from meth url net retries i backoff =
     (Some (Failure (error_msg error) (error_status error)), evs @ [Log LError ''Request failed after attempts''])"
  by (subst requestWithRetry_from.simps) (auto simp: client_error_def retryable_def Let_def)

lemma retryable_not_client: "retryable status \<Longrightarrow> \<not> client_error status"
  by (auto simp: retryable_def client_error_def num_def)

lemma loop_retry:
  "i < retries - 1 \<Longrightarrow> try_request meth url (net (nat i)) = (Inl error, evs) \<Longrightarrow>
   retryable (error_status error) \<Longrightarrow>
   requestWithRetry_from meth url net retries i backoff =
     (fst (requestWithRetry_from meth url net retries (i + 1) (next_backoff (error_status error) backoff * (3 / 2))),
      evs @ Sleep (next_backoff (error_status error) backoff)
        # snd (requestWithRetry_from meth url net retries (i + 1) (next_backoff (error_status error) backoff * (3 / 2))))"
  by (subst requestWithRetry_from.simps)
     (auto simp: client_error_def retryable_def Let_def delay_def num_def next_backoff_def split: prod.splits)

lemma try_request_unsupported:
  "try_request (Unsupported m) url a = (Inl \<lparr>err_message = ''Method '' @ m @ '' not supported'', err_response = None\<rparr>, [])"
  by (simp add: try_request_def)

lemma try_request_rejected:
  "meth = Get \<or> meth = Post \<Longrightarrow> try_request meth url (Rejected e) = (Inl e, [Request url])"
  by (auto simp: try_request_def)

lemma try_request_resolved:
  "meth = Get \<or> meth = Post \<Longrightarrow> \<exists>out. try_request meth url (Resolved r) = (Inr out, [Request url])"
  by (auto simp: try_request_def Let_def)

lemma no_status_final: "err_response e = None \<Longrightarrow> \<not> client_error (error_status e) \<and> \<not> retryable (error_status e)"
  by (simp add: error_status_def client_error_def retryable_def num_def)

text \<open>The first iteration either returns after one request or sleeps and goes on.\<close>

lemma loop_cases:
  assumes "i < retries" "meth = Get \<or> meth = Post"
  shows "(\<exists>out tl. requestWithRetry_from meth url net retries i backoff = (Some out, Request url # tl)
            \<and> requests tl = [] \<and> sleeps tl = []
            \<and> (\<forall>e. net (nat i) = Rejected e \<longrightarrow> out = Failure (error_msg e) (error_status e)
                  \<and> (tl = [] \<and> client_error (error_status e) \<or> tl = [Log LError ''Request failed after attempts''] \<and> \<not> client_error (error_status e)
                        \<and> \<not> (retryable (error_status e) \<and> i < retries - 1))))
       \<or> (\<exists>e. net (nat i) = Rejected e \<and> retryable (error_status e) \<and> i < retries - 1
            \<and> requestWithRetry_from meth url net retries i backoff =
               (fst (requestWithRetry_from meth url net retries (i + 1) (next_backoff (error_status e) backoff * (3 / 2))),
                Request url # Sleep (next_backoff (error_status e) backoff)
                 # snd (requestWithRetry_from meth url net retries (i + 1) (next_backoff (error_status e) backoff * (3 / 2)))))"
proof (cases "net (nat i)")
  case (Resolved r)
  from try_request_resolved[OF assms(2), of url r] obtain out
    where "try_request meth url (Resolved r) = (Inr out, [Request url])" by blast
  with Resolved assms(1) have "requestWithRetry_from meth url net retries i backoff = (Some out, [Request url])"
    using loop_return[where net=net and i=i and retries=retries] by simp
  with Resolved show ?thesis by simp
next
  case (Rejected e)
  have t: "try_request meth url (net (nat i)) = (Inl e, [Request url])"
    using Rejected try_request_rejected[OF assms(2)] by simp
  show ?thesis
  proof (cases "client_error (error_status e)")
    case True
    from loop_client[where net=net, OF assms(1) t True] Rejected True show ?thesis by simp
  next
    case False
    show ?thesis
    proof (cases "retryable (error_status e) \<and> i < retries - 1")
      case True
      then show ?thesis using loop_retry[where net=net and retries=retries and backoff=backoff, OF _ t] Rejected by simp
    next
      case F2: False
      from loop_final[where net=net, OF assms(1) t False F2] Rejected False F2 show ?thesis by simp
    qed
  qed
qed


lemma loop_unsupported:
  "i < retries \<Longrightarrow>
   requestWithRetry_from (Unsupported m) url net retries i backoff =
     (Some (Failure (JStr (''Method '' @ m @ '' not supported'')) None),
      [Log LError ''Request failed after attempts''])"
  using loop_final[where net=net and meth="Unsupported m" and i=i and retries=retries and url=url and backoff=backoff,
          OF _ try_request_unsupported]
  by (simp add: client_error_def retryable_def error_status_def error_msg_def num_def)

lemma method_cases: "(meth = Get \<or> meth = Post) \<or> (\<exists>m. meth = Unsupported m)"
  by (cases meth) auto

lemma loop_returns:
  "i < retries \<Longrightarrow> fst (requestWithRetry_from meth url net retries i backoff) \<noteq> None
     \<and> snd (requestWithRetry_from meth url net retries i backoff) \<noteq> []"
proof (induction "nat (retries - i)" arbitrary: i backoff)
  case 0
  then show ?case by simp
next
  case (Suc n)
  show ?case
  proof (cases "meth = Get \<or> meth = Post")
    case True
    from loop_cases[OF Suc.prems True, of url net backoff] show ?thesis
    proof (elim disjE exE conjE)
      fix out tl
      assume "requestWithRetry_from meth url net retries i backoff = (Some out, Request url # tl)"
      then show ?thesis by simp
    next
      fix e
      assume r: "i < retries - 1"
        and eq: "requestWithRetry_from meth url net retries i backoff =
               (fst (requestWithRetry_from meth url net retries (i + 1) (next_backoff (error_status e) backoff * (3 / 2))),
                Request url # Sleep (next_backoff (error_status e) backoff)
                 # snd (requestWithRetry_from meth url net retries (i + 1) (next_backoff (error_status e) backoff * (3 / 2))))"
      from Suc.hyps(2) r have "n = nat (retries - (i + 1))" by simp
      from Suc.hyps(1)[OF this] r
      have "fst (requestWithRetry_from meth url net retries (i + 1) (next_backoff (error_status e) backoff * (3 / 2))) \<noteq> None"
        by simp
      with eq show ?thesis by simp
    qed
  next
    case False
    then obtain m where "meth = Unsupported m" using method_cases[of meth] by blast
    then show ?thesis using loop_unsupported[OF Suc.prems] by simp
  qed
qed

text \<open>
  Claim C9. The executor returns a tagged outcome only when \<open>retries\<close> is at least 1: with a
  retry count of 0 or less the loop body never runs, nothing is requested or logged, and the
  call returns \<^verbatim>\<open>undefined\<close>; with a positive count it always returns an outcome.
\<close>

theorem undefined_iff_no_retries:
  "(fst (requestWithRetry meth url net retries backoff) = None \<longleftrightarrow> retries \<le> 0)
   \<and> (snd (requestWithRetry meth url net retries backoff) = [] \<longleftrightarrow> retries \<le> 0)"
proof (cases "0 < retries")
  case True
  then show ?thesis
    using loop_returns[of 0 retries meth url net backoff] by (simp add: requestWithRetry_def)
next
  case False
  then show ?thesis by (simp add: requestWithRetry_def loop_done)
qed

text \<open>
  At \<open>retries = 0\<close> the call returns \<^verbatim>\<open>undefined\<close> without an event; at 5 it returns an outcome.
\<close>

theorem undefined_iff_no_retries_witness:
  "fst (requestWithRetry Get IpLookup (replies [] (ok JNull)) 0 5000) = None
   \<and> snd (requestWithRetry Get IpLookup (replies [] (ok JNull)) 0 5000) = []
   \<and> fst (requestWithRetry Get IpLookup (replies [] (ok JNull)) 5 5000) \<noteq> None"
  using undefined_iff_no_retries[of Get IpLookup "replies [] (ok JNull)" 0 5000]
    undefined_iff_no_retries[of Get IpLookup "replies [] (ok JNull)" 5 5000]
  by simp


text \<open>
  Claim C5. When the first attempt fails with an HTTP status in \<open>[400, 500)\<close> other than 429,
  the executor returns the failure with that status at once: exactly one request, no wait,
  no retry.
\<close>

theorem client_error_single_attempt:
  assumes "0 < retries" "meth = Get \<or> meth = Post"
    and "net 0 = Rejected error" "err_response error = Some r"
    and "400 \<le> resp_status r" "resp_status r < 500" "resp_status r \<noteq> 429"
  shows "requestWithRetry meth url net retries backoff =
           (Some (Failure (error_msg error) (Some (resp_status r))), [Request url])"
proof -
  have s: "error_status error = Some (resp_status r)"
    using assms(4) by (simp add: error_status_def)
  have c: "client_error (error_status error)"
    using assms(5-7) by (simp add: s client_error_def num_def)
  have t: "try_request meth url (net (nat 0)) = (Inl error, [Request url])"
    using try_request_rejected[OF assms(2)] assms(3) by simp
  show ?thesis
    unfolding requestWithRetry_def
    using loop_client[where net=net, OF assms(1) t c] s by simp
qed

text \<open>
  A 404 on a call with five attempts allowed.
\<close>

theorem client_error_single_attempt_witness:
  "requestWithRetry Post CheckinUrl (replies [http_failure 404] (ok JNull)) 5 5000
     = (Some (Failure (JStr ''Request failed'') (Some 404)), [Request CheckinUrl])"
  using client_error_single_attempt[where retries=5 and meth=Post and url=CheckinUrl and backoff=5000
      and net="replies [http_failure 404] (ok JNull)"
      and error="\<lparr>err_message = ''Request failed'', err_response = Some \<lparr>resp_status = 404, resp_data = JNull\<rparr>\<rparr>"
      and r="\<lparr>resp_status = 404, resp_data = JNull\<rparr>"]
  by (simp add: replies_def http_failure_def error_msg_def)


lemma requests_nonempty:
  assumes "requests (snd (requestWithRetry_from meth url net retries i backoff)) \<noteq> []"
  shows "i < retries \<and> (meth = Get \<or> meth = Post)"
proof -
  have a: "i < retries" using assms by (cases "i < retries") (simp_all add: loop_done)
  have "meth = Get \<or> meth = Post"
  proof (rule ccontr)
    assume "\<not> (meth = Get \<or> meth = Post)"
    then obtain m where "meth = Unsupported m" using method_cases[of meth] by blast
    with assms a show False by (simp add: loop_unsupported)
  qed
  with a show ?thesis by simp
qed

lemma no_status_msg: "err_response e = None \<Longrightarrow> error_msg e = JStr (err_message e) \<and> error_status e = None"
  by (simp add: error_msg_def error_status_def)

lemma transport_error_from:
  assumes "k < length (requests (snd (requestWithRetry_from meth url net retries i backoff)))"
    and "0 \<le> i" "net (nat i + k) = Rejected error" "err_response error = None"
  shows "fst (requestWithRetry_from meth url net retries i backoff) = Some (Failure (JStr (err_message error)) None)
       \<and> length (requests (snd (requestWithRetry_from meth url net retries i backoff))) = Suc k
       \<and> after_request k (snd (requestWithRetry_from meth url net retries i backoff))
           = [Log LError ''Request failed after attempts'']"
  using assms
proof (induction k arbitrary: i backoff)
  case 0
  then have "requests (snd (requestWithRetry_from meth url net retries i backoff)) \<noteq> []" by auto
  from requests_nonempty[OF this] have a: "i < retries" and m: "meth = Get \<or> meth = Post" by simp_all
  from loop_cases[OF a m, of url net backoff] show ?case
  proof (elim disjE exE conjE)
    fix out tl
    assume eq: "requestWithRetry_from meth url net retries i backoff = (Some out, Request url # tl)"
      and r: "\<forall>e. net (nat i) = Rejected e \<longrightarrow> out = Failure (error_msg e) (error_status e)
                  \<and> (tl = [] \<and> client_error (error_status e) \<or> tl = [Log LError ''Request failed after attempts''] \<and> \<not> client_error (error_status e)
                        \<and> \<not> (retryable (error_status e) \<and> i < retries - 1))"
    from 0 have n: "net (nat i) = Rejected error" by simp
    from r n no_status_final[OF "0.prems"(4)] no_status_msg[OF "0.prems"(4)]
    have "out = Failure (JStr (err_message error)) None \<and> tl = [Log LError ''Request failed after attempts'']"
      by auto
    with eq show ?thesis by simp
  next
    fix e
    assume "net (nat i) = Rejected e" "retryable (error_status e)"
    with 0 no_status_final[OF "0.prems"(4)] show ?thesis by simp
  qed
next
  case (Suc k)
  then have "requests (snd (requestWithRetry_from meth url net retries i backoff)) \<noteq> []" by auto
  from requests_nonempty[OF this] have a: "i < retries" and m: "meth = Get \<or> meth = Post" by simp_all
  from loop_cases[OF a m, of url net backoff] show ?case
  proof (elim disjE exE conjE)
    fix out tl
    assume "requestWithRetry_from meth url net retries i backoff = (Some out, Request url # tl)"
      "requests tl = []"
    with Suc.prems(1) show ?thesis by simp
  next
    fix e
    let ?r = "requestWithRetry_from meth url net retries (i + 1) (next_backoff (error_status e) backoff * (3 / 2))"
    assume eq: "requestWithRetry_from meth url net retries i backoff =
        (fst ?r, Request url # Sleep (next_backoff (error_status e) backoff) # snd ?r)"
    from Suc.prems(1) eq have k: "k < length (requests (snd ?r))" by simp
    from Suc.prems(2,3) have n: "net (nat (i + 1) + k) = Rejected error" by (simp add: nat_add_distrib)
    from Suc.IH[OF k _ n Suc.prems(4)] Suc.prems(2) eq show ?thesis by simp
  qed
qed

text \<open>
  Claim C1, as the code has it. An attempt that fails with an error carrying no HTTP status
  (timeout, DNS failure, connection refused) is not retried: whenever request number \<open>k\<close> of
  a call fails that way, it is the last request of the call, only the final log line follows
  it, and the call returns the failure with the error's message and a \<^verbatim>\<open>null\<close> status.
  (The flag \<^verbatim>\<open>shouldRetry\<close> is set for status 429 and the statuses in \<open>[500, 600)\<close> only.)
\<close>

theorem transport_error_not_retried:
  assumes "k < length (requests (snd (requestWithRetry meth url net retries backoff)))"
    and "net k = Rejected error" "err_response error = None"
  shows "fst (requestWithRetry meth url net retries backoff) = Some (Failure (JStr (err_message error)) None)
       \<and> length (requests (snd (requestWithRetry meth url net retries backoff))) = Suc k
       \<and> after_request k (snd (requestWithRetry meth url net retries backoff))
           = [Log LError ''Request failed after attempts'']"
  using transport_error_from[of k meth url net retries 0 backoff error] assms
  by (simp add: requestWithRetry_def)

text \<open>
  After a 503 that is retried, a timeout ends the call at its second request.
\<close>

theorem transport_error_not_retried_witness:
  "fst (requestWithRetry Get IpLookup (replies [http_failure 503, transport_failure ''timeout''] (ok JNull)) 5 5000)
      = Some (Failure (JStr ''timeout'') None)
   \<and> length (requests (snd (requestWithRetry Get IpLookup (replies [http_failure 503, transport_failure ''timeout''] (ok JNull)) 5 5000))) = 2"
proof -
  have r: "requests (snd (requestWithRetry Get IpLookup (replies [http_failure 503, transport_failure ''timeout''] (ok JNull)) 5 5000))
     = [IpLookup, IpLookup]"
    by code_simp
  have n: "replies [http_failure 503, transport_failure ''timeout''] (ok JNull) 1
     = Rejected \<lparr>err_message = ''timeout'', err_response = None\<rparr>"
    by (simp add: replies_def transport_failure_def)
  show ?thesis
    using transport_error_not_retried[where k=1 and meth=Get and url=IpLookup and retries=5 and backoff=5000
        and net="replies [http_failure 503, transport_failure ''timeout''] (ok JNull)", OF _ n] r
    by simp
qed

text \<open>
  Claim C1 as stated fails: with five attempts allowed and a network that would answer the
  second request, a timeout at the first request is returned at once, without a wait.
\<close>

theorem transport_error_counterexample:
  "requestWithRetry Get IpLookup (replies [transport_failure ''timeout''] (ok JNull)) 5 5000
     = (Some (Failure (JStr ''timeout'') None), [Request IpLookup, Log LError ''Request failed after attempts''])"
  by code_simp


lemma loop_head:
  assumes "i < retries" "meth = Get \<or> meth = Post"
  shows "\<exists>rest. snd (requestWithRetry_from meth url net retries i backoff) = Request url # rest"
  using loop_cases[OF assms, of url net backoff] by auto

lemma sleep_after_429_from:
  assumes "k < length (requests (snd (requestWithRetry_from meth url net retries i backoff)))"
    and "0 \<le> i" "net (nat i + k) = Rejected error" "error_status error = Some 429"
    and "i + int k + 1 < retries"
  shows "\<exists>rest. after_request k (snd (requestWithRetry_from meth url net retries i backoff))
           = Sleep 30000 # Request url # rest"
  using assms
proof (induction k arbitrary: i backoff)
  case 0
  then have "requests (snd (requestWithRetry_from meth url net retries i backoff)) \<noteq> []" by auto
  from requests_nonempty[OF this] have a: "i < retries" and m: "meth = Get \<or> meth = Post" by simp_all
  have rt: "retryable (error_status error)" using "0.prems"(4) by (simp add: retryable_def)
  from loop_cases[OF a m, of url net backoff] show ?case
  proof (elim disjE exE conjE)
    fix out tl
    assume r: "\<forall>e. net (nat i) = Rejected e \<longrightarrow> out = Failure (error_msg e) (error_status e)
                  \<and> (tl = [] \<and> client_error (error_status e) \<or> tl = [Log LError ''Request failed after attempts''] \<and> \<not> client_error (error_status e)
                        \<and> \<not> (retryable (error_status e) \<and> i < retries - 1))"
    from "0.prems" have "net (nat i) = Rejected error" by simp
    with r rt retryable_not_client[OF rt] "0.prems"(5) show ?thesis by auto
  next
    fix e
    let ?r = "requestWithRetry_from meth url net retries (i + 1) (next_backoff (error_status e) backoff * (3 / 2))"
    assume e: "net (nat i) = Rejected e" and lt: "i < retries - 1"
      and eq: "requestWithRetry_from meth url net retries i backoff =
        (fst ?r, Request url # Sleep (next_backoff (error_status e) backoff) # snd ?r)"
    from "0.prems" e have "e = error" by simp
    moreover from lt loop_head[OF _ m, of "i + 1" retries url net] obtain rest where "snd ?r = Request url # rest"
      by auto
    ultimately show ?thesis using eq "0.prems"(4) by (simp add: next_backoff_def)
  qed
next
  case (Suc k)
  then have "requests (snd (requestWithRetry_from meth url net retries i backoff)) \<noteq> []" by auto
  from requests_nonempty[OF this] have a: "i < retries" and m: "meth = Get \<or> meth = Post" by simp_all
  from loop_cases[OF a m, of url net backoff] show ?case
  proof (elim disjE exE conjE)
    fix out tl
    assume "requestWithRetry_from meth url net retries i backoff = (Some out, Request url # tl)"
      "requests tl = []"
    with Suc.prems(1) show ?thesis by simp
  next
    fix e
    let ?r = "requestWithRetry_from meth url net retries (i + 1) (next_backoff (error_status e) backoff * (3 / 2))"
    assume eq: "requestWithRetry_from meth url net retries i backoff =
        (fst ?r, Request url # Sleep (next_backoff (error_status e) backoff) # snd ?r)"
    from Suc.prems(1) eq have k: "k < length (requests (snd ?r))" by simp
    from Suc.prems(2,3) have n: "net (nat (i + 1) + k) = Rejected error" by (simp add: nat_add_distrib)
    from Suc.prems(5) have l: "(i + 1) + int k + 1 < retries" by simp
    from Suc.IH[OF k _ n Suc.prems(4) l] Suc.prems(2) eq show ?thesis by simp
  qed
qed

text \<open>
  Claim C4. Whenever request number \<open>k\<close> of a call is answered with status 429 and attempts
  remain, the next events are a wait of exactly 30000 ms and then the next request, whatever
  the backoff was before.
\<close>

theorem sleep_after_429:
  assumes "k < length (requests (snd (requestWithRetry meth url net retries backoff)))"
    and "net k = Rejected error" "error_status error = Some 429"
    and "int k + 1 < retries"
  shows "\<exists>rest. after_request k (snd (requestWithRetry meth url net retries backoff))
           = Sleep 30000 # Request url # rest"
  using sleep_after_429_from[of k meth url net retries 0 backoff error] assms
  by (simp add: requestWithRetry_def)

text \<open>
  A 429 at the first request of a call that started with a backoff of 5000 ms.
\<close>

theorem sleep_after_429_witness:
  "\<exists>rest. after_request 0 (snd (requestWithRetry Post CheckinUrl (replies [http_failure 429] (ok JNull)) 5 5000))
     = Sleep 30000 # Request CheckinUrl # rest"
proof -
  have r: "requests (snd (requestWithRetry Post CheckinUrl (replies [http_failure 429] (ok JNull)) 5 5000))
     = [CheckinUrl, CheckinUrl]"
    by code_simp
  have n: "replies [http_failure 429] (ok JNull) 0
     = Rejected \<lparr>err_message = ''Request failed'', err_response = Some \<lparr>resp_status = 429, resp_data = JNull\<rparr>\<rparr>"
    by (simp add: replies_def http_failure_def)
  show ?thesis
    using sleep_after_429[where k=0 and meth=Post and url=CheckinUrl and retries=5 and backoff=5000
        and net="replies [http_failure 429] (ok JNull)", OF _ n] r
    by (simp add: error_status_def)
qed


lemma sleeps_sorted_from:
  assumes "0 \<le> p" "p \<le> backoff" "0 \<le> i"
    and "\<forall>e. net (nat i) = Rejected e \<longrightarrow> error_status e = Some 429 \<longrightarrow> p \<le> 30000"
    and "\<forall>k e. k < length (sleeps (snd (requestWithRetry_from meth url net retries i backoff)))
            \<longrightarrow> net (nat i + Suc k) = Rejected e \<longrightarrow> error_status e = Some 429
            \<longrightarrow> sleeps (snd (requestWithRetry_from meth url net retries i backoff)) ! k \<le> 30000"
  shows "sorted (p # sleeps (snd (requestWithRetry_from meth url net retries i backoff)))"
  using assms
proof (induction "nat (retries - i)" arbitrary: i backoff p)
  case 0
  then show ?case by (simp add: loop_done)
next
  case (Suc n)
  then have a: "i < retries" by simp
  show ?case
  proof (cases "meth = Get \<or> meth = Post")
    case False
    then obtain m where "meth = Unsupported m" using method_cases[of meth] by blast
    then show ?thesis using loop_unsupported[OF a] by simp
  next
    case True
    from loop_cases[OF a True, of url net backoff] show ?thesis
    proof (elim disjE exE conjE)
      fix out tl
      assume "requestWithRetry_from meth url net retries i backoff = (Some out, Request url # tl)"
        "sleeps tl = []"
      then show ?thesis by simp
    next
      fix e
      let ?b = "next_backoff (error_status e) backoff"
      let ?r = "requestWithRetry_from meth url net retries (i + 1) (?b * (3 / 2))"
      assume e: "net (nat i) = Rejected e"
        and eq: "requestWithRetry_from meth url net retries i backoff =
          (fst ?r, Request url # Sleep ?b # snd ?r)"
      have sl: "sleeps (snd (requestWithRetry_from meth url net retries i backoff)) = ?b # sleeps (snd ?r)"
        by (simp add: eq)
      have pb: "p \<le> ?b"
        using Suc.prems(2,4) e by (simp add: next_backoff_def)
      then have b0: "0 \<le> ?b" using Suc.prems(1) by simp
      then have b1: "?b \<le> ?b * (3 / 2)" by simp
      from Suc.hyps(2) have n: "n = nat (retries - (i + 1))" by simp
      have i1: "0 \<le> i + 1" using Suc.prems(3) by simp
      have ni: "nat (i + 1) = Suc (nat i)" using Suc.prems(3) by simp
      have h4: "\<forall>e. net (nat (i + 1)) = Rejected e \<longrightarrow> error_status e = Some 429 \<longrightarrow> ?b \<le> 30000"
      proof (intro allI impI)
        fix e' assume "net (nat (i + 1)) = Rejected e'" "error_status e' = Some 429"
        with Suc.prems(5)[rule_format, of 0 e'] show "?b \<le> 30000" by (simp add: sl ni)
      qed
      have h5: "\<forall>k e. k < length (sleeps (snd ?r)) \<longrightarrow> net (nat (i + 1) + Suc k) = Rejected e
                  \<longrightarrow> error_status e = Some 429 \<longrightarrow> sleeps (snd ?r) ! k \<le> 30000"
      proof (intro allI impI)
        fix k e' assume "k < length (sleeps (snd ?r))" "net (nat (i + 1) + Suc k) = Rejected e'"
          "error_status e' = Some 429"
        with Suc.prems(5)[rule_format, of "Suc k" e'] show "sleeps (snd ?r) ! k \<le> 30000"
          by (simp add: sl ni)
      qed
      from Suc.hyps(1)[OF n b0 b1 i1 h4 h5] have "sorted (?b # sleeps (snd ?r))" .
      with pb show ?thesis by (auto simp: sl)
    qed
  qed
qed

text \<open>
  Claim C2, as the code has it. With a non-negative initial backoff, the waits of one call
  are non-decreasing for every sequence of outcomes in which no attempt answered with status
  429 follows a wait longer than 30000 ms. (A 429 sets the next wait to 30000 ms, whatever the
  backoff was before.)
\<close>

theorem sleeps_sorted_unless_429_after_longer_sleep:
  assumes "0 \<le> backoff"
    and "\<forall>k e. k < length (sleeps (snd (requestWithRetry meth url net retries backoff)))
            \<longrightarrow> net (Suc k) = Rejected e \<longrightarrow> error_status e = Some 429
            \<longrightarrow> sleeps (snd (requestWithRetry meth url net retries backoff)) ! k \<le> 30000"
  shows "sorted (sleeps (snd (requestWithRetry meth url net retries backoff)))"
proof -
  have "sorted (0 # sleeps (snd (requestWithRetry_from meth url net retries 0 backoff)))"
  proof (rule sleeps_sorted_from)
    show "\<forall>k e. k < length (sleeps (snd (requestWithRetry_from meth url net retries 0 backoff)))
            \<longrightarrow> net (nat 0 + Suc k) = Rejected e \<longrightarrow> error_status e = Some 429
            \<longrightarrow> sleeps (snd (requestWithRetry_from meth url net retries 0 backoff)) ! k \<le> 30000"
      using assms(2) by (simp add: requestWithRetry_def)
  qed (use assms(1) in simp_all)
  then show ?thesis by (simp add: requestWithRetry_def)
qed

text \<open>
  A 500, a 429 and a 503: the waits are 5000, 30000 and 45000 ms.
\<close>

theorem sleeps_sorted_unless_429_after_longer_sleep_witness:
  "sleeps (snd (requestWithRetry Get IpLookup
        (replies [http_failure 500, http_failure 429, http_failure 503] (ok JNull)) 5 5000)) = [5000, 30000, 45000]
   \<and> sorted (sleeps (snd (requestWithRetry Get IpLookup
        (replies [http_failure 500, http_failure 429, http_failure 503] (ok JNull)) 5 5000)))"
proof -
  have v: "sleeps (snd (requestWithRetry Get IpLookup
        (replies [http_failure 500, http_failure 429, http_failure 503] (ok JNull)) 5 5000)) = [5000, 30000, 45000]"
    by code_simp
  have h: "\<forall>k e. k < length (sleeps (snd (requestWithRetry Get IpLookup
        (replies [http_failure 500, http_failure 429, http_failure 503] (ok JNull)) 5 5000)))
     \<longrightarrow> replies [http_failure 500, http_failure 429, http_failure 503] (ok JNull) (Suc k) = Rejected e
     \<longrightarrow> error_status e = Some 429
     \<longrightarrow> sleeps (snd (requestWithRetry Get IpLookup
        (replies [http_failure 500, http_failure 429, http_failure 503] (ok JNull)) 5 5000)) ! k \<le> 30000"
    unfolding v
    by (auto simp: replies_def http_failure_def ok_def error_status_def nth_Cons' less_Suc_eq split: if_splits)
  show ?thesis
    using sleeps_sorted_unless_429_after_longer_sleep[where backoff=5000 and meth=Get and url=IpLookup and retries=5
        and net="replies [http_failure 500, http_failure 429, http_failure 503] (ok JNull)", OF _ h] v
    by simp
qed

text \<open>
  Claim C2 as stated fails: a 429, a 500 and a 429 again give the waits 30000, 45000 and
  30000 ms.
\<close>

theorem sleeps_sorted_counterexample:
  "\<not> sorted (sleeps (snd (requestWithRetry Get IpLookup
        (replies [http_failure 429, http_failure 500, http_failure 429] (ok JNull)) 5 5000)))"
proof -
  have "sleeps (snd (requestWithRetry Get IpLookup
        (replies [http_failure 429, http_failure 500, http_failure 429] (ok JNull)) 5 5000)) = [30000, 45000, 30000]"
    by code_simp
  then show ?thesis by simp
qed

section \<open>Properties of token decoding\<close>

lemma byte_bound: "unat (x :: 8 word) < 256"
  using unsigned_less[of x, where 'a=nat] by simp

lemma div_part: "t < k \<Longrightarrow> (a * k + t) div k = (a::nat)"
  by simp

lemma mod_part: "t < k \<Longrightarrow> (a * k + t) mod k = (t::nat)"
  by simp

lemma high_nibble_bound: "(y::nat) < 256 \<Longrightarrow> y div 16 < 16"
  by (simp add: div_less_iff_less_mult)

lemma high_pair_bound: "(z::nat) < 256 \<Longrightarrow> z div 64 < 4"
  by (simp add: div_less_iff_less_mult)

lemma byte1_eq: "(y::nat) < 256 \<Longrightarrow> x div 4 * 4 + (x mod 4 * 16 + y div 16) div 16 = x"
  by (simp add: div_part high_nibble_bound)

lemma byte2_eq: "(y::nat) < 256 \<Longrightarrow> z < 256 \<Longrightarrow> (x mod 4 * 16 + y div 16) mod 16 * 16 + (y mod 16 * 4 + z div 64) div 4 = y"
  by (simp add: div_part mod_part high_nibble_bound high_pair_bound)

lemma byte3_eq: "(z::nat) < 256 \<Longrightarrow> (y mod 16 * 4 + z div 64) mod 4 * 64 + z mod 64 = z"
  by (simp add: mod_part high_pair_bound)

lemma byte2_eq_last: "(y::nat) < 256 \<Longrightarrow> (x mod 4 * 16 + y div 16) mod 16 * 16 + (y mod 16 * 4) div 4 = y"
  by (simp add: mod_part high_nibble_bound)

lemma byte1_eq_last: "x div 4 * 4 + (x mod 4 * 16) div 16 = (x::nat)"
  by simp

lemma sextet1_bound: "(x::nat) < 256 \<Longrightarrow> x div 4 < 64"
  by (simp add: div_less_iff_less_mult)

lemma sextet2_bound: "(t::nat) < 16 \<Longrightarrow> x mod 4 * 16 + t < 64"
proof -
  assume "t < 16"
  moreover have "x mod 4 < 4" by simp
  ultimately show ?thesis by linarith
qed

lemma sextet3_bound: "(t::nat) < 4 \<Longrightarrow> y mod 16 * 4 + t < 64"
proof -
  assume "t < 4"
  moreover have "y mod 16 < 16" by simp
  ultimately show ?thesis by linarith
qed

lemma split_length: "length (split c s) = Suc (count_list s c)"
  by (induction s) (auto split: list.splits)

lemma alphabet_all:
  "list_all (\<lambda>n. unbase64 (repair_char (base64url_char n)) = Some n \<and> repair_char (base64url_char n) \<noteq> CHR ''='') [0..<64]"
  by code_simp

lemma alphabet_inverse:
  assumes "n < 64"
  shows "unbase64 (repair_char (base64url_char n)) = Some n \<and> repair_char (base64url_char n) \<noteq> CHR ''=''"
proof -
  from assms have "n \<in> set [0..<64]" by simp
  with alphabet_all show ?thesis unfolding list_all_iff by blast
qed

lemma encode_sextets: "base64url_encode bs = map base64url_char (sextets bs)"
  by (induction bs rule: sextets.induct) simp_all

lemma sextets_bound: "n \<in> set (sextets bs) \<Longrightarrow> n < 64"
proof (induction bs arbitrary: n rule: sextets.induct)
  case (1 x y z rest)
  have "unat x div 4 < 64" by (rule sextet1_bound[OF byte_bound])
  moreover have "unat x mod 4 * 16 + unat y div 16 < 64" by (rule sextet2_bound[OF high_nibble_bound[OF byte_bound]])
  moreover have "unat y mod 16 * 4 + unat z div 64 < 64" by (rule sextet3_bound[OF high_pair_bound[OF byte_bound]])
  moreover have "unat z mod 64 < 64" by simp
  ultimately show ?case using 1 by auto
next
  case (2 x y)
  have "unat x div 4 < 64" by (rule sextet1_bound[OF byte_bound])
  moreover have "unat x mod 4 * 16 + unat y div 16 < 64" by (rule sextet2_bound[OF high_nibble_bound[OF byte_bound]])
  moreover have "unat y mod 16 * 4 < 64" using sextet3_bound[of 0 "unat y"] by simp
  ultimately show ?case using 2 by auto
next
  case (3 x)
  have "unat x div 4 < 64" by (rule sextet1_bound[OF byte_bound])
  moreover have "unat x mod 4 * 16 < 64" using sextet2_bound[of 0 "unat x"] by simp
  ultimately show ?case using 3 by auto
qed simp

lemma word_byte1:
  fixes x y :: "8 word"
  shows "(of_nat (unat x div 4 * 4 + (unat x mod 4 * 16 + unat y div 16) div 16) :: 8 word) = x"
proof -
  have e: "unat x div 4 * 4 + (unat x mod 4 * 16 + unat y div 16) div 16 = unat x"
    by (rule byte1_eq[OF byte_bound])
  show ?thesis unfolding e by simp
qed

lemma word_byte2:
  fixes x y z :: "8 word"
  shows "(of_nat ((unat x mod 4 * 16 + unat y div 16) mod 16 * 16 + (unat y mod 16 * 4 + unat z div 64) div 4) :: 8 word) = y"
proof -
  have e: "(unat x mod 4 * 16 + unat y div 16) mod 16 * 16 + (unat y mod 16 * 4 + unat z div 64) div 4 = unat y"
    by (rule byte2_eq[OF byte_bound byte_bound])
  show ?thesis unfolding e by simp
qed

lemma word_byte3:
  fixes y z :: "8 word"
  shows "(of_nat ((unat y mod 16 * 4 + unat z div 64) mod 4 * 64 + unat z mod 64) :: 8 word) = z"
proof -
  have e: "(unat y mod 16 * 4 + unat z div 64) mod 4 * 64 + unat z mod 64 = unat z"
    by (rule byte3_eq[OF byte_bound])
  show ?thesis unfolding e by simp
qed

lemma word_byte2_last:
  fixes x y :: "8 word"
  shows "(of_nat ((unat x mod 4 * 16 + unat y div 16) mod 16 * 16 + (unat y mod 16 * 4) div 4) :: 8 word) = y"
proof -
  have e: "(unat x mod 4 * 16 + unat y div 16) mod 16 * 16 + (unat y mod 16 * 4) div 4 = unat y"
    by (rule byte2_eq_last[OF byte_bound])
  show ?thesis unfolding e by simp
qed

lemma word_byte1_last:
  fixes x :: "8 word"
  shows "(of_nat (unat x div 4 * 4 + (unat x mod 4 * 16) div 16) :: 8 word) = x"
proof -
  have e: "unat x div 4 * 4 + (unat x mod 4 * 16) div 16 = unat x"
    by (rule byte1_eq_last)
  show ?thesis unfolding e by simp
qed

lemma bytes_of_sextets: "base64_bytes (sextets bs) = bs"
proof (induction bs rule: sextets.induct)
  case (1 x y z rest)
  then show ?case by (simp only: sextets.simps base64_bytes.simps word_byte1 word_byte2 word_byte3)
next
  case (2 x y)
  show ?case by (simp only: sextets.simps base64_bytes.simps word_byte1 word_byte2_last)
next
  case (3 x)
  show ?case by (simp only: sextets.simps base64_bytes.simps word_byte1_last)
next
  case 4
  show ?case by simp
qed

lemma replace_repair: "replace_all CHR ''_'' CHR ''/'' (replace_all CHR ''-'' CHR ''+'' s) = map repair_char s"
  by (simp add: replace_all_def repair_char_def Let_def)

lemma takeWhile_padding:
  assumes "\<And>c. c \<in> set cs \<Longrightarrow> c \<noteq> CHR ''=''"
  shows "takeWhile (\<lambda>c. c \<noteq> CHR ''='') (cs @ replicate k CHR ''='') = cs"
proof -
  have "takeWhile (\<lambda>c. c \<noteq> CHR ''='') (replicate k CHR ''='') = []" by (cases k) simp_all
  with assms show ?thesis by simp
qed

lemma map_filter_inverse:
  "(\<And>n. n \<in> set ns \<Longrightarrow> f (g n) = Some n) \<Longrightarrow> List.map_filter f (map g ns) = ns"
  by (induction ns) simp_all

lemma decode_encode: "Buffer_from_base64 (repair_base64 (base64url_encode bs)) = bs"
proof -
  let ?cs = "map repair_char (map base64url_char (sextets bs))"
  have r: "repair_base64 (base64url_encode bs) = ?cs @ replicate ((4 - length ?cs mod 4) mod 4) CHR ''=''"
    by (simp add: repair_base64_def Let_def replace_repair encode_sextets)
  have ne: "\<And>c. c \<in> set ?cs \<Longrightarrow> c \<noteq> CHR ''=''"
    using alphabet_inverse sextets_bound by auto
  have "List.map_filter unbase64 (map (\<lambda>n. repair_char (base64url_char n)) (sextets bs)) = sextets bs"
    by (rule map_filter_inverse) (simp add: alphabet_inverse sextets_bound)
  then have m: "List.map_filter unbase64 ?cs = sextets bs" by (simp add: comp_def)
  have t: "takeWhile (\<lambda>c. c \<noteq> CHR ''='') (repair_base64 (base64url_encode bs)) = ?cs"
    unfolding r by (rule takeWhile_padding) (rule ne)
  show ?thesis
    by (simp only: Buffer_from_base64_def t m bytes_of_sextets)
qed

text \<open>
  Claim C7. For every payload, encoding its serialisation as the unpadded base64url segment of
  a token and decoding the segment with the repair of \<^verbatim>\<open>extractUserIdFromToken\<close> (\<^verbatim>\<open>-\<close> to
  \<^verbatim>\<open>+\<close>, \<^verbatim>\<open>_\<close> to \<^verbatim>\<open>/\<close>, padding with \<^verbatim>\<open>=\<close> to a multiple of 4, base64 decoding, parsing)
  gives the payload back. The serialiser and the parser are those of the runtime; they are
  any pair that round-trips on the payload.
\<close>

theorem token_payload_roundtrip:
  assumes "parse (serialize payload) = Some payload"
  shows "decode_payload parse (base64url_encode (serialize payload)) = Inr payload"
  using assms by (simp add: decode_payload_def decode_encode)

text \<open>
  The payload \<^verbatim>\<open>{"userId":"u-17"}\<close>: 17 bytes, so the segment has 23 characters and the repair
  adds one \<^verbatim>\<open>=\<close>.
\<close>

theorem token_payload_roundtrip_witness:
  "decode_payload sample_parse (base64url_encode (sample_serialize sample_payload)) = Inr sample_payload"
  using token_payload_roundtrip[of sample_parse sample_serialize sample_payload]
  by (simp add: sample_parse_def sample_serialize_def)

text \<open>
  Claim C6. For every token string that does not contain exactly two \<^verbatim>\<open>.\<close> separators,
  \<^verbatim>\<open>extractUserIdFromToken\<close> returns \<^verbatim>\<open>null\<close> (after logging the failure); the error is caught
  inside the function.
\<close>

theorem malformed_token_gives_null:
  assumes "count_list token CHR ''.'' \<noteq> 2"
  shows "extractUserIdFromToken parse (JStr token) = (JNull, [Log LError ''Failed to extract userId from token''])"
  using assms by (simp add: extractUserIdFromToken_def extractUserIdFromToken_try_def split_length)

text \<open>
  A token with a single separator.
\<close>

theorem malformed_token_gives_null_witness:
  "extractUserIdFromToken sample_parse (JStr ''abc.def'')
     = (JNull, [Log LError ''Failed to extract userId from token''])"
  using malformed_token_gives_null[of "''abc.def''" sample_parse] by simp

section \<open>Properties of the per-identity flow\<close>

lemma requests_append: "requests (es @ fs) = requests es @ requests fs"
  by (induction es rule: requests.induct) simp_all

lemma requests_set: "(Request u \<in> set es) = (u \<in> set (requests es))"
  by (induction es rule: requests.induct) auto

lemma loop_requests: "set (requests (snd (requestWithRetry_from meth url net retries i backoff))) \<subseteq> {url}"
proof (induction "nat (retries - i)" arbitrary: i backoff)
  case 0
  then show ?case by (simp add: loop_done)
next
  case (Suc n)
  then have a: "i < retries" by simp
  show ?case
  proof (cases "meth = Get \<or> meth = Post")
    case False
    then obtain m where "meth = Unsupported m" using method_cases[of meth] by blast
    then show ?thesis using loop_unsupported[OF a] by simp
  next
    case True
    from loop_cases[OF a True, of url net backoff] show ?thesis
    proof (elim disjE exE conjE)
      fix out tl
      assume "requestWithRetry_from meth url net retries i backoff = (Some out, Request url # tl)"
        "requests tl = []"
      then show ?thesis by simp
    next
      fix e
      let ?r = "requestWithRetry_from meth url net retries (i + 1) (next_backoff (error_status e) backoff * (3 / 2))"
      assume lt: "i < retries - 1"
        and eq: "requestWithRetry_from meth url net retries i backoff =
          (fst ?r, Request url # Sleep (next_backoff (error_status e) backoff) # snd ?r)"
      from Suc.hyps(2) have n: "n = nat (retries - (i + 1))" by simp
      from Suc.hyps(1)[OF n] eq show ?thesis by simp
    qed
  qed
qed

lemma executor_requests: "set (requests (snd (requestWithRetry meth url net retries backoff))) \<subseteq> {url}"
  by (simp add: requestWithRetry_def loop_requests)

lemma executor_requests_5:
  "meth = Get \<or> meth = Post \<Longrightarrow> set (requests (snd (requestWithRetry meth url net 5 backoff))) = {url}"
proof -
  assume m: "meth = Get \<or> meth = Post"
  from loop_head[OF _ m, of 0 5 url net backoff] obtain rest
    where "snd (requestWithRetry meth url net 5 backoff) = Request url # rest"
    by (auto simp: requestWithRetry_def)
  then have "url \<in> set (requests (snd (requestWithRetry meth url net 5 backoff)))" by simp
  with executor_requests[of meth url net 5 backoff] show ?thesis by blast
qed

lemma executor_requestsD:
  "requestWithRetry meth url net retries backoff = (res, evs) \<Longrightarrow> u \<in> set (requests evs) \<Longrightarrow> u = url"
  using executor_requests[of meth url net retries backoff] by auto

lemma config_requests: "getAxiosConfig proxy token = (config, evs) \<Longrightarrow> requests evs = []"
  by (auto simp: getAxiosConfig_def newAgent_def Let_def split: option.splits if_splits)

lemma ip_requests: "set (requests (snd (getPublicIP w proxy))) \<subseteq> {IpLookup}"
  by (auto simp: getPublicIP_def requests_append config_requests split: prod.splits sum.splits
           dest: executor_requestsD)

lemma msg_requests:
  "getMessageAndNonce w address proxy = (r, evs) \<Longrightarrow> set (requests evs) \<subseteq> {MessageUrl}"
  by (auto simp: getMessageAndNonce_def Let_def requests_append config_requests split: prod.splits sum.splits
           dest: executor_requestsD)

lemma login_requests: "set (requests (snd (performLogin w pk proxy))) \<subseteq> {MessageUrl, VerifyUrl}"
  by (auto simp: performLogin_def Let_def requests_append config_requests
           split: prod.splits sum.splits option.splits
           dest: executor_requestsD dest!: msg_requests)

lemma extract_requests: "requests (snd (extractUserIdFromToken parse token)) = []"
  by (simp add: extractUserIdFromToken_def split: sum.splits)

lemma points_requests: "set (requests (snd (fetchUserPoints w userId token proxy))) = {PointsUrl userId}"
proof -
  obtain config cevs where c: "getAxiosConfig proxy token = (config, cevs)" by (cases "getAxiosConfig proxy token")
  obtain res evs where r: "requestWithRetry Get (PointsUrl userId) (network w (PointsUrl userId) JNull config) 5 5000 = (res, evs)"
    by (cases "requestWithRetry Get (PointsUrl userId) (network w (PointsUrl userId) JNull config) 5 5000")
  have "set (requests evs) = {PointsUrl userId}"
    using executor_requests_5[of Get "PointsUrl userId" "network w (PointsUrl userId) JNull config" 5000] r by simp
  then show ?thesis
    using c r config_requests[OF c]
    by (simp add: fetchUserPoints_def requests_append split: sum.splits)
qed

lemma stats_fetched_after_checkin:
  assumes "processPrivateKey w pk index n proxy = Inr evs" "Request CheckinUrl \<in> set evs"
  shows "\<exists>pre post userId. evs = pre @ post \<and> Request CheckinUrl \<notin> set post
           \<and> Request (PointsUrl userId) \<in> set post"
proof -
  from assms(1) obtain address where wa: "wallet_address w pk = Some address"
    by (auto simp: processPrivateKey_def split: option.splits)
  obtain ip evs_ip where ip: "getPublicIP w proxy = (ip, evs_ip)" by (cases "getPublicIP w proxy")
  obtain token evs_login where lg: "performLogin w pk proxy = (token, evs_login)" by (cases "performLogin w pk proxy")
  obtain userId evs_id where ex: "extractUserIdFromToken (json_parse w) token = (userId, evs_id)"
    by (cases "extractUserIdFromToken (json_parse w) token")
  obtain checkInRes evs_checkin where ci: "performCheckIn w userId token proxy = (checkInRes, evs_checkin)"
    by (cases "performCheckIn w userId token proxy")
  obtain totalPoints evs_points where fp: "fetchUserPoints w userId token proxy = (totalPoints, evs_points)"
    by (cases "fetchUserPoints w userId token proxy")
  have r1: "set (requests evs_ip) \<subseteq> {IpLookup}" using ip_requests[of w proxy] ip by simp
  have r2: "set (requests evs_login) \<subseteq> {MessageUrl, VerifyUrl}" using login_requests[of w pk proxy] lg by simp
  have r3: "requests evs_id = []" using extract_requests[of "json_parse w" token] ex by simp
  have r4: "set (requests evs_points) = {PointsUrl userId}" using points_requests[of w userId token proxy] fp by simp
  have c: "CheckinUrl \<in> set (requests evs)" using assms(2) by (simp add: requests_set)
  have reached: "truthy token \<and> truthy userId"
  proof (rule ccontr)
    assume "\<not> (truthy token \<and> truthy userId)"
    then have "set (requests evs) \<subseteq> {IpLookup, MessageUrl, VerifyUrl}"
      using assms(1) wa ip lg ex r1 r2 r3
      by (auto simp: processPrivateKey_def Let_def requests_append split: if_splits)
    with c show False by auto
  qed
  let ?post = "evs_points @ [Log LInfo ''Address'', Log LInfo ''Total Points'', Log LInfo ''Completed account processing'']"
  from reached assms(1) wa ip lg ex ci fp obtain pre where "evs = pre @ ?post"
    by (auto simp: processPrivateKey_def Let_def)
  moreover have "set (requests ?post) = {PointsUrl userId}" using r4 by (simp add: requests_append)
  then have "Request CheckinUrl \<notin> set ?post \<and> Request (PointsUrl userId) \<in> set ?post"
    unfolding requests_set by simp
  ultimately show ?thesis by blast
qed

lemma checkin_already:
  assumes "status = Some 502 \<or> status = Some 409
           \<or> (\<exists>s. message = JStr s \<and> includes_str s ''Daily quest already completed today'')"
  shows "checkIn_result (Some (Failure message status)) = (alreadyChecked, [Log LWarn ''Already checked in''])"
proof (cases "status = Some 502 \<or> status = Some 409")
  case True
  then show ?thesis by (auto simp: checkIn_result_def Let_def)
next
  case False
  with assms obtain s where s: "message = JStr s" "includes_str s ''Daily quest already completed today''" by blast
  then have "s \<noteq> []" by auto
  with s False show ?thesis by (simp add: checkIn_result_def Let_def js_or_def)
qed

text \<open>
  Claim C8. A check-in whose executor result is a failure with status 502 or 409, or with an
  error message that contains \<^verbatim>\<open>Daily quest already completed today\<close>, gives
  \<^verbatim>\<open>{alreadyChecked: true}\<close> and a warning, not an error. And whatever the check-in gives: when
  the processing of an identity sends a check-in request, a request for the points follows
  after its last check-in request.
\<close>

theorem already_checked_in_then_stats:
  "(status = Some 502 \<or> status = Some 409
      \<or> (\<exists>s. message = JStr s \<and> includes_str s ''Daily quest already completed today'')
     \<longrightarrow> checkIn_result (Some (Failure message status)) = (alreadyChecked, [Log LWarn ''Already checked in'']))
   \<and> (processPrivateKey w pk index n proxy = Inr evs \<and> Request CheckinUrl \<in> set evs
     \<longrightarrow> (\<exists>pre post userId. evs = pre @ post \<and> Request CheckinUrl \<notin> set post
            \<and> Request (PointsUrl userId) \<in> set post))"
  using checkin_already[of status message] stats_fetched_after_checkin[of w pk index n proxy evs]
  by blast

text \<open>
  The sample run: the check-in is answered 409 with the marker as message, and the points
  request follows.
\<close>

lemma sample_points:
  "requestWithRetry Get (PointsUrl userId) (network sample_world (PointsUrl userId) payload config) 5 5000
     = (Some (Success (JObj [(''totalPoints'', JNum 0)])), [Request (PointsUrl userId)])"
  by (simp add: requestWithRetry_def requestWithRetry_from.simps try_request_def sample_world_def
        sample_network_def ok_def field_def)

lemma sample_ip:
  "getPublicIP sample_world None = (JStr ''203.0.113.7'', [Request IpLookup])"
  by (simp add: getPublicIP_def getAxiosConfig_def requestWithRetry_def requestWithRetry_from.simps
        try_request_def sample_world_def sample_network_def ok_def field_def js_or_def)

lemma sample_message:
  "getMessageAndNonce sample_world ''0xA1'' None = (Some (JStr ''Sign in'', JStr ''n1''), [Request MessageUrl])"
  by (simp add: getMessageAndNonce_def getAxiosConfig_def requestWithRetry_def requestWithRetry_from.simps
        try_request_def sample_world_def sample_network_def ok_def field_def)

lemma sample_login:
  "performLogin sample_world ''k1'' None = (JStr sample_token, [Request MessageUrl, Request VerifyUrl])"
proof -
  have w: "wallet_address sample_world ''k1'' = Some ''0xA1''" "sign_message sample_world ''k1'' (JStr ''Sign in'') = Some ''0xsig''"
    by (simp_all add: sample_world_def)
  have v: "\<And>payload config. requestWithRetry Post VerifyUrl (network sample_world VerifyUrl payload config) 5 5000
     = (Some (Success (JObj [(''accessToken'', JStr sample_token)])), [Request VerifyUrl])"
    by (simp add: requestWithRetry_def requestWithRetry_from.simps try_request_def sample_world_def
        sample_network_def ok_def field_def)
  show ?thesis
    by (simp add: performLogin_def w sample_message v getAxiosConfig_def)
qed

lemma sample_segment: "base64url_encode sample_json = ''eyJ1c2VySWQiOiJ1LTE3In0''"
  by code_simp

lemma sample_userId:
  "extractUserIdFromToken sample_parse (JStr sample_token) = (JStr ''u-17'', [])"
proof -
  have "split CHR ''.'' sample_token = [''eyJhbGciOiJIUzI1NiJ9'', base64url_encode sample_json, ''c2ln'']"
    by (simp add: sample_token_def sample_segment)
  then show ?thesis
    by (simp add: extractUserIdFromToken_def extractUserIdFromToken_try_def decode_payload_def
          decode_encode sample_parse_def sample_payload_def)
qed

lemma sample_checkin:
  "performCheckIn sample_world userId token None
     = (alreadyChecked, [Request CheckinUrl, Log LWarn ''Already checked in''])"
proof -
  have c: "\<And>payload config. requestWithRetry Post CheckinUrl (network sample_world CheckinUrl payload config) 5 5000
     = (Some (Failure (JStr ''Daily quest already completed today'') (Some 409)), [Request CheckinUrl])"
    by (simp add: requestWithRetry_def requestWithRetry_from.simps try_request_def sample_world_def
        sample_network_def error_status_def error_msg_def num_def field_def js_or_def)
  show ?thesis
    by (simp add: performCheckIn_def getAxiosConfig_def c checkIn_result_def Let_def)
qed

lemma sample_run:
  "processPrivateKey sample_world ''k1'' 0 1 None =
     Inr [Log LInfo ''Starting account processing'', Request IpLookup,
          Log LInfo ''IP'', Log LInfo ''Address'',
          Log LInfo ''Starting login process...'', Request MessageUrl,
          Request VerifyUrl, Log LInfo ''Login successful'',
          Log LInfo ''Starting daily check-in process...'', Request CheckinUrl,
          Log LWarn ''Already checked in'', Request (PointsUrl (JStr ''u-17'')),
          Log LInfo ''Address'', Log LInfo ''Total Points'',
          Log LInfo ''Completed account processing'']"
proof -
  have w: "wallet_address sample_world ''k1'' = Some ''0xA1''" "json_parse sample_world = sample_parse"
    by (simp_all add: sample_world_def)
  have t: "sample_token \<noteq> []" by (simp add: sample_token_def)
  have p: "fetchUserPoints sample_world (JStr ''u-17'') (JStr sample_token) None
     = (JStr ''N/A'', [Request (PointsUrl (JStr ''u-17''))])"
    by (simp add: fetchUserPoints_def getAxiosConfig_def sample_points points_result_def js_or_def)
  show ?thesis
    by (simp add: processPrivateKey_def Let_def w sample_ip sample_login t sample_userId sample_checkin p
          alreadyChecked_def field_def)
qed

theorem already_checked_in_then_stats_witness:
  "checkIn_result (Some (Failure (JStr ''Daily quest already completed today'') (Some 409)))
     = (alreadyChecked, [Log LWarn ''Already checked in''])
   \<and> (\<exists>evs pre post userId. processPrivateKey sample_world ''k1'' 0 1 None = Inr evs
        \<and> Request CheckinUrl \<in> set evs \<and> evs = pre @ post
        \<and> Request CheckinUrl \<notin> set post \<and> Request (PointsUrl userId) \<in> set post)"
  using already_checked_in_then_stats[of "Some 409" "JStr ''Daily quest already completed today''"
      sample_world "''k1''" 0 1 None
      "[Log LInfo ''Starting account processing'', Request IpLookup,
          Log LInfo ''IP'', Log LInfo ''Address'',
          Log LInfo ''Starting login process...'', Request MessageUrl,
          Request VerifyUrl, Log LInfo ''Login successful'',
          Log LInfo ''Starting daily check-in process...'', Request CheckinUrl,
          Log LWarn ''Already checked in'', Request (PointsUrl (JStr ''u-17'')),
          Log LInfo ''Address'', Log LInfo ''Total Points'',
          Log LInfo ''Completed account processing'']"]
    sample_run
  by simp

text \<open>
  Claim C10. When the points request succeeds with a body whose \<^verbatim>\<open>totalPoints\<close> is falsy (0,
  missing, \<^verbatim>\<open>null\<close>), \<^verbatim>\<open>fetchUserPoints\<close> returns \<^verbatim>\<open>'N/A'\<close>, the value it also returns when the
  request fails: the caller cannot tell a balance of 0 from an unavailable one.
\<close>

theorem zero_points_reported_as_unavailable:
  assumes "requestWithRetry Get (PointsUrl userId)
             (network w (PointsUrl userId) JNull (fst (getAxiosConfig proxy token))) 5 5000 = (Some r, evs)"
    and "r = Failure message status \<or> (r = Success data \<and> \<not> truthy (field data ''totalPoints''))"
  shows "fst (fetchUserPoints w userId token proxy) = JStr ''N/A''"
  using assms
  by (cases "getAxiosConfig proxy token")
     (auto simp: fetchUserPoints_def points_result_def js_or_def field_def split: sum.splits)

text \<open>
  The sample service reports a balance of 0.
\<close>

theorem zero_points_reported_as_unavailable_witness:
  "fst (fetchUserPoints sample_world (JStr ''u-17'') (JStr ''t'') None) = JStr ''N/A''"
  using zero_points_reported_as_unavailable[of "JStr ''u-17''" sample_world None "JStr ''t''"
      "Success (JObj [(''totalPoints'', JNum 0)])" "[Request (PointsUrl (JStr ''u-17''))]" _ _
      "JObj [(''totalPoints'', JNum 0)]"]
    sample_points
  by (simp add: field_def)

section \<open>Properties of the cycle\<close>

declare runCycle_from.simps [simp del]

lemma cycle_step:
  "i < length pks \<Longrightarrow> \<exists>evs sep. runCycle_from ws cfg pks i
      = Account i evs # sep @ Pause [Sleep 5000] # runCycle_from ws cfg pks (i + 1)
      \<and> (sep = [] \<or> sep = [BlankLines])"
  by (subst runCycle_from.simps) (simp add: Let_def delay_def)

lemma cycle_end: "\<not> i < length pks \<Longrightarrow> runCycle_from ws cfg pks i = []"
  by (subst runCycle_from.simps) simp

lemma pauses_append: "pauses (es @ fs) = pauses es @ pauses fs"
  by (induction es rule: pauses.induct) simp_all

lemma pauses_from: "pauses (runCycle_from ws cfg pks i) = replicate (length pks - i) [Sleep 5000]"
proof (induction "length pks - i" arbitrary: i)
  case 0
  then show ?case by (simp add: cycle_end)
next
  case (Suc n)
  then have lt: "i < length pks" by simp
  from cycle_step[OF lt, of ws cfg] obtain evs sep where
    eq: "runCycle_from ws cfg pks i = Account i evs # sep @ Pause [Sleep 5000] # runCycle_from ws cfg pks (i + 1)"
    and sep: "sep = [] \<or> sep = [BlankLines]" by blast
  from Suc.hyps(2) have n: "n = length pks - (i + 1)" by simp
  have ps: "pauses sep = []" using sep by auto
  have "pauses (runCycle_from ws cfg pks i) = [Sleep 5000] # pauses (runCycle_from ws cfg pks (i + 1))"
    unfolding eq by (simp add: pauses_append ps)
  also have "\<dots> = [Sleep 5000] # replicate (length pks - (i + 1)) [Sleep 5000]"
    using Suc.hyps(1)[OF n] by simp
  also have "\<dots> = replicate (length pks - i) [Sleep 5000]"
    using lt by (simp add: Suc_diff_Suc flip: replicate_Suc)
  finally show ?case .
qed

lemma last_from: "i < length pks \<Longrightarrow> last (runCycle_from ws cfg pks i) = Pause [Sleep 5000]"
proof (induction "length pks - i" arbitrary: i)
  case 0
  then show ?case by simp
next
  case (Suc n)
  from cycle_step[OF Suc.prems, of ws cfg] obtain evs sep where
    eq: "runCycle_from ws cfg pks i = Account i evs # sep @ Pause [Sleep 5000] # runCycle_from ws cfg pks (i + 1)"
    by blast
  show ?case
  proof (cases "i + 1 < length pks")
    case True
    from Suc.hyps(2) have n: "n = length pks - (i + 1)" by simp
    from cycle_step[OF True, of ws cfg] have ne: "runCycle_from ws cfg pks (i + 1) \<noteq> []" by auto
    from Suc.hyps(1)[OF n True] ne show ?thesis unfolding eq by simp
  next
    case False
    then show ?thesis unfolding eq by (simp add: cycle_end)
  qed
qed

text \<open>
  Claim C3, as the code has it. In every cycle over a non-empty list of identities the fixed
  wait of 5 seconds is performed after each identity, the last one included: there are as
  many waits as identities, and the cycle ends with one. (Only the blank lines are printed
  between identities and not after the last.)
\<close>

theorem delay_after_every_identity:
  assumes "pks \<noteq> []"
  shows "pauses (runCycle ws cfg pks) = replicate (length pks) [Sleep 5000]
       \<and> last (runCycle ws cfg pks) = Pause [Sleep 5000]"
  using assms pauses_from[of ws cfg pks 0] last_from[of 0 pks ws cfg] by (simp add: runCycle_def)

text \<open>
  Two identities, two waits.
\<close>

theorem delay_after_every_identity_witness:
  "pauses (runCycle (everywhere sample_world) \<lparr>globalUseProxy = False, globalProxies = []\<rparr> [''k1'', ''k2''])
     = [[Sleep 5000], [Sleep 5000]]
   \<and> last (runCycle (everywhere sample_world) \<lparr>globalUseProxy = False, globalProxies = []\<rparr> [''k1'', ''k2''])
     = Pause [Sleep 5000]"
  using delay_after_every_identity[of "[''k1'', ''k2'']" "everywhere sample_world"
      "\<lparr>globalUseProxy = False, globalProxies = []\<rparr>"]
  by (simp add: numeral_2_eq_2)

text \<open>
  Claim C3 as stated fails: in a cycle over two identities (both keys are rejected by the
  wallet library, which the cycle catches) a wait follows the second, last identity.
\<close>

theorem delay_after_last_identity_counterexample:
  "runCycle (everywhere sample_world) \<lparr>globalUseProxy = False, globalProxies = []\<rparr> [''bad1'', ''bad2'']
     = [Account 0 [Log LError ''Error processing account''], BlankLines, Pause [Sleep 5000],
        Account 1 [Log LError ''Error processing account''], Pause [Sleep 5000]]"
  by (simp add: runCycle_def runCycle_from.simps processPrivateKey_def sample_world_def everywhere_def delay_def)

end
